theory Spec2Isabelle
  imports Main "HOL-Library.Word"
begin

section \<open>The problem-code directive: \<^verbatim>\<open>docs/extensions/ironplc_problemcode.py\<close>\<close>

subsection \<open>Python values and failures\<close>

text \<open>
  The exceptions the two modules can raise, and the two ways in which running a module
  can stop early: \<^verbatim>\<open>exit(n)\<close> raises \<^verbatim>\<open>SystemExit\<close> with the
  status \<open>n\<close>; anything else is an exception that nobody catches. File names, codes
  and messages are values of type \<open>string\<close>: the module compares them and splits them
  at dots, and does nothing that depends on the character set.
\<close>

datatype py_error = OSError | StopIteration | IndexError | KeyError | UnicodeDecodeError | LookupError

datatype abort = SystemExit int | Exception py_error

text \<open>\<^verbatim>\<open>xs[i]\<close> for a literal index \<open>i \<ge> 0\<close>: out of range raises \<^verbatim>\<open>IndexError\<close>.\<close>

definition getitem :: "'a list \<Rightarrow> nat \<Rightarrow> py_error + 'a" where
  "getitem xs i = (if i < length xs then Inr (xs ! i) else Inl IndexError)"

text \<open>
  \<^verbatim>\<open>s.split(sep)\<close> for a separator of one character: the pieces of \<open>s\<close> between the
  occurrences of \<open>sep\<close>. The result is never the empty list (\<^verbatim>\<open>''.split('.')\<close> is
  \<^verbatim>\<open>['']\<close>), so that \<^verbatim>\<open>s.split(sep)[0]\<close> cannot raise.
\<close>

fun str_split :: "string \<Rightarrow> char \<Rightarrow> string list" where
  "str_split [] sep = [[]]"
| "str_split (c # cs) sep =
     (if c = sep then [] # str_split cs sep
      else (case str_split cs sep of
              [] \<Rightarrow> [[c]]
            | w # ws \<Rightarrow> (c # w) # ws))"

text \<open>
  \<^verbatim>\<open>os.path.join(a, *p)\<close> as \<^verbatim>\<open>posixpath\<close> defines it: a component that starts
  with the separator replaces what came before, otherwise it is appended after one
  separator.
\<close>

fun join :: "string \<Rightarrow> string list \<Rightarrow> string" where
  "join a [] = a"
| "join a (b # p) =
     join (if take 1 b = ''/'' then b
           else if a = [] \<or> (a \<noteq> [] \<and> last a = CHR ''/'') then a @ b
           else a @ ''/'' @ b) p"

subsection \<open>What the module reads\<close>

text \<open>
  The module reads two directory listings and two CSV files. \<open>listdir\<close> gives the
  names in a directory (\<open>None\<close>: \<^verbatim>\<open>os.listdir\<close> raises \<^verbatim>\<open>OSError\<close>);
  \<open>csv_rows\<close> gives the rows that \<^verbatim>\<open>csv.reader\<close> yields for the file at a path,
  the header row first (\<open>None\<close>: \<^verbatim>\<open>open\<close> raises \<^verbatim>\<open>OSError\<close>). A row is the
  list of its fields; a blank line is the row \<open>[]\<close>. How the reader cuts a line into
  fields is the \<^verbatim>\<open>csv\<close> library's business: the module sees the rows only.
\<close>

record filesystem =
  listdir :: "string \<Rightarrow> string list option"
  csv_rows :: "string \<Rightarrow> string list list option"

subsection \<open>Module state\<close>

text \<open>\<^verbatim>\<open>class ProblemCode\<close>: one attribute, the message.\<close>

record ProblemCode =
  message :: string

text \<open>
  The state the module's top-level code changes: the dictionary \<^verbatim>\<open>problem_infos\<close>
  and the lines printed to standard output.
\<close>

record module_state =
  problem_infos :: "string \<rightharpoonup> ProblemCode"
  stdout :: "string list"

definition initial_state :: module_state where
  "initial_state = \<lparr>problem_infos = Map.empty, stdout = []\<rparr>"

subsection \<open>The documented topics\<close>

text \<open>\<^verbatim>\<open>v.split('.')[0]\<close>, the code a file name stands for.\<close>

definition help_topic :: "string \<Rightarrow> string" where
  "help_topic v = hd (str_split v CHR ''.'')"

definition help_topics :: "string list \<Rightarrow> string list \<Rightarrow> string set" where
  "help_topics compiler_listing vscode_listing =
     (let compiler_help_topics = set (map help_topic compiler_listing);
          extension_help_topics = set (map help_topic vscode_listing)
      in compiler_help_topics \<union> extension_help_topics)"

definition compiler_problems :: string where
  "compiler_problems = join ''compiler'' [''problems'']"

definition vscode_problems :: string where
  "vscode_problems = join ''vscode'' [''problems'']"

subsection \<open>Loading the catalogs\<close>

definition definitions :: "string list" where
  "definitions =
     [join ''..'' [''compiler'', ''problems'', ''resources'', ''problem-codes.csv''],
      join ''..'' [''integrations'', ''vscode'', ''resources'', ''problem-codes.csv'']]"

definition missing_message :: "string \<Rightarrow> string" where
  "missing_message code = ''Missing help topic for '' @ code"

text \<open>
  The inner loop \<^verbatim>\<open>for row in problem_codes\<close>. A row is read at index 0, checked
  against the topics, and only then read at index 2: a short row whose code is missing
  from the topics exits, a short row whose code is documented raises
  \<^verbatim>\<open>IndexError\<close>. The state is returned in every case, since the dictionary is changed
  in place and keeps what was stored before the loop stopped.
\<close>

fun process_rows ::
  "string set \<Rightarrow> string list list \<Rightarrow> module_state \<Rightarrow> (abort + unit) \<times> module_state" where
  "process_rows topics [] s = (Inr (), s)"
| "process_rows topics (row # rows) s =
     (case getitem row 0 of
        Inl e \<Rightarrow> (Inl (Exception e), s)
      | Inr code \<Rightarrow>
          if code \<notin> topics then
            (Inl (SystemExit 1), s\<lparr>stdout := stdout s @ [missing_message code]\<rparr>)
          else
            (case getitem row 2 of
               Inl e \<Rightarrow> (Inl (Exception e), s)
             | Inr m \<Rightarrow>
                 process_rows topics rows
                   (s\<lparr>problem_infos := (problem_infos s)(code \<mapsto> \<lparr>message = m\<rparr>)\<rparr>)))"

text \<open>
  The outer loop \<^verbatim>\<open>for definition in definitions\<close>: open the file, skip the header
  with \<^verbatim>\<open>next\<close> (which raises \<^verbatim>\<open>StopIteration\<close> on a file with no row), then
  run the inner loop.
\<close>

fun process_definitions ::
  "filesystem \<Rightarrow> string set \<Rightarrow> string list \<Rightarrow> module_state \<Rightarrow> (abort + unit) \<times> module_state" where
  "process_definitions fs topics [] s = (Inr (), s)"
| "process_definitions fs topics (d # ds) s =
     (case csv_rows fs d of
        None \<Rightarrow> (Inl (Exception OSError), s)
      | Some [] \<Rightarrow> (Inl (Exception StopIteration), s)
      | Some (header # rows) \<Rightarrow>
          (case process_rows topics rows s of
             (Inl a, s') \<Rightarrow> (Inl a, s')
           | (Inr u, s') \<Rightarrow> process_definitions fs topics ds s'))"

text \<open>
  The module's top-level code, from the two listings to the end of the loops. When a
  listing fails, nothing has been stored or printed yet.
\<close>

definition init :: "filesystem \<Rightarrow> (abort + unit) \<times> module_state" where
  "init fs =
     (case listdir fs compiler_problems of
        None \<Rightarrow> (Inl (Exception OSError), initial_state)
      | Some compiler_listing \<Rightarrow>
          (case listdir fs vscode_problems of
             None \<Rightarrow> (Inl (Exception OSError), initial_state)
           | Some vscode_listing \<Rightarrow>
               process_definitions fs (help_topics compiler_listing vscode_listing)
                 definitions initial_state))"

subsection \<open>The directive\<close>

text \<open>
  The docutils nodes the directive builds, one constructor for each node class it calls,
  with the arguments of the call: the raw source, for \<^verbatim>\<open>term\<close> the text, and the
  children; \<^verbatim>\<open>strong\<close> and \<^verbatim>\<open>paragraph\<close> are called with \<^verbatim>\<open>text=\<close> only.
\<close>

datatype node =
    nodes_definition_list string "node list"
  | nodes_definition_list_item string "node list"
  | nodes_term string string "node list"
  | nodes_strong string
  | nodes_definition string "node list"
  | nodes_paragraph string

definition make_item :: "string \<Rightarrow> string \<Rightarrow> node" where
  "make_item key val =
     nodes_definition_list_item ''''
       [nodes_term '''' '''' [nodes_strong key],
        nodes_definition '''' [nodes_paragraph val]]"

text \<open>
  \<^verbatim>\<open>ProblemSummary.run\<close>, with the directive's argument list and the module state; the
  state is returned to make explicit that \<^verbatim>\<open>run\<close> assigns to nothing.
\<close>

definition run :: "module_state \<Rightarrow> string list \<Rightarrow> (py_error + node list) \<times> module_state" where
  "run s arguments =
     (case getitem arguments 0 of
        Inl e \<Rightarrow> (Inl e, s)
      | Inr code \<Rightarrow>
          (case problem_infos s code of
             None \<Rightarrow> (Inl KeyError, s)
           | Some info \<Rightarrow>
               (let items = [make_item ''Code'' code, make_item ''Message'' (message info)]
                in (Inr [nodes_definition_list '''' items], s))))"

text \<open>
  Sphinx calls \<^verbatim>\<open>run\<close> once for each use of the directive; \<open>runs\<close> is the
  state after the calls with the given argument lists, in order.
\<close>

fun runs :: "module_state \<Rightarrow> string list list \<Rightarrow> module_state" where
  "runs s [] = s"
| "runs s (arguments # calls) = runs (snd (run s arguments)) calls"

section \<open>The version string: \<^verbatim>\<open>docs/conf.py\<close>\<close>

subsection \<open>Bytes, text and the two codecs\<close>

text \<open>
  A \<^verbatim>\<open>bytes\<close> object is a list of bytes; a \<^verbatim>\<open>str\<close> is a list of Unicode code
  points. The codecs and \<^verbatim>\<open>str.strip\<close> belong to the Python runtime; they are written
  out here as the Unicode standard defines the two encoding forms, with the error handler
  \<^verbatim>\<open>strict\<close>: ill-formed input raises \<^verbatim>\<open>UnicodeDecodeError\<close>.
\<close>

type_synonym byte = "8 word"
type_synonym str = "nat list"

definition continuation :: "nat \<Rightarrow> bool" where
  "continuation b = (0x80 \<le> b \<and> b \<le> 0xBF)"

text \<open>
  UTF-8 on byte values: one to four bytes for a code point, no overlong forms, no
  surrogates, nothing above \<open>0x10FFFF\<close>.
\<close>

fun utf8_decode :: "nat list \<Rightarrow> py_error + str" where
  "utf8_decode [] = Inr []"
| "utf8_decode (b0 # bs) =
     (if b0 < 0x80 then map_sum id ((#) b0) (utf8_decode bs)
      else if 0xC2 \<le> b0 \<and> b0 \<le> 0xDF then
        (case bs of
           b1 # rest \<Rightarrow>
             if continuation b1
             then map_sum id ((#) ((b0 - 0xC0) * 64 + (b1 - 0x80))) (utf8_decode rest)
             else Inl UnicodeDecodeError
         | _ \<Rightarrow> Inl UnicodeDecodeError)
      else if 0xE0 \<le> b0 \<and> b0 \<le> 0xEF then
        (case bs of
           b1 # b2 # rest \<Rightarrow>
             if (if b0 = 0xE0 then 0xA0 else 0x80) \<le> b1
                \<and> b1 \<le> (if b0 = 0xED then 0x9F else 0xBF) \<and> continuation b2
             then map_sum id ((#) ((b0 - 0xE0) * 4096 + (b1 - 0x80) * 64 + (b2 - 0x80)))
                    (utf8_decode rest)
             else Inl UnicodeDecodeError
         | _ \<Rightarrow> Inl UnicodeDecodeError)
      else if 0xF0 \<le> b0 \<and> b0 \<le> 0xF4 then
        (case bs of
           b1 # b2 # b3 # rest \<Rightarrow>
             if (if b0 = 0xF0 then 0x90 else 0x80) \<le> b1
                \<and> b1 \<le> (if b0 = 0xF4 then 0x8F else 0xBF)
                \<and> continuation b2 \<and> continuation b3
             then map_sum id
                    ((#) ((b0 - 0xF0) * 262144 + (b1 - 0x80) * 4096 + (b2 - 0x80) * 64
                          + (b3 - 0x80)))
                    (utf8_decode rest)
             else Inl UnicodeDecodeError
         | _ \<Rightarrow> Inl UnicodeDecodeError)
      else Inl UnicodeDecodeError)"

text \<open>
  UTF-16LE on byte values: two bytes, low byte first, for a code unit; a high surrogate
  must be followed by a low surrogate, and the pair is one code point. An odd number of
  bytes and a surrogate out of place are errors. The codec of this name keeps a
  byte-order mark as the code point \<open>0xFEFF\<close>.
\<close>

fun utf16le_decode :: "nat list \<Rightarrow> py_error + str" where
  "utf16le_decode [] = Inr []"
| "utf16le_decode [b] = Inl UnicodeDecodeError"
| "utf16le_decode (lo # hi # bs) =
     (let u = lo + 256 * hi in
      if u < 0xD800 \<or> 0xDFFF < u then map_sum id ((#) u) (utf16le_decode bs)
      else if u \<le> 0xDBFF then
        (case bs of
           lo2 # hi2 # rest \<Rightarrow>
             (let u2 = lo2 + 256 * hi2 in
              if 0xDC00 \<le> u2 \<and> u2 \<le> 0xDFFF
              then map_sum id ((#) (0x10000 + (u - 0xD800) * 1024 + (u2 - 0xDC00)))
                     (utf16le_decode rest)
              else Inl UnicodeDecodeError)
         | _ \<Rightarrow> Inl UnicodeDecodeError)
      else Inl UnicodeDecodeError)"

text \<open>\<^verbatim>\<open>b.decode(encoding)\<close> for the two encodings the configuration names.\<close>

definition decode :: "byte list \<Rightarrow> string \<Rightarrow> py_error + str" where
  "decode b encoding =
     (if encoding = ''utf-8'' then utf8_decode (map unat b)
      else if encoding = ''utf-16le'' then utf16le_decode (map unat b)
      else Inl LookupError)"

text \<open>
  The code points that \<^verbatim>\<open>str.strip\<close> with no argument removes, those for which
  \<^verbatim>\<open>str.isspace\<close> holds: the ASCII controls \<open>09\<close> to \<open>0D\<close> and \<open>1C\<close> to
  \<open>1F\<close>, the space, and the Unicode spaces and line separators beyond ASCII.
\<close>

definition isspace :: "nat \<Rightarrow> bool" where
  "isspace c =
     ((0x09 \<le> c \<and> c \<le> 0x0D) \<or> (0x1C \<le> c \<and> c \<le> 0x20) \<or> c = 0x85 \<or> c = 0xA0
      \<or> c = 0x1680 \<or> (0x2000 \<le> c \<and> c \<le> 0x200A) \<or> c = 0x2028 \<or> c = 0x2029
      \<or> c = 0x202F \<or> c = 0x205F \<or> c = 0x3000)"

text \<open>\<^verbatim>\<open>s.strip()\<close>: drop the white space at both ends.\<close>

definition strip :: "str \<Rightarrow> str" where
  "strip s = rev (dropWhile isspace (rev (dropWhile isspace s)))"

definition startswith :: "'a list \<Rightarrow> 'a list \<Rightarrow> bool" where
  "startswith s p = (take (length p) s = p)"

definition BOM_UTF16_LE :: "byte list" where
  "BOM_UTF16_LE = [0xFF, 0xFE]"

subsection \<open>The loader\<close>

text \<open>
  The block under \<^verbatim>\<open>with open("VERSION", "rb")\<close>, from the bytes read to the value
  bound to \<^verbatim>\<open>version\<close>; \<^verbatim>\<open>str(decoded_text)\<close> is \<^verbatim>\<open>decoded_text\<close> itself.
  A decoding error leaves \<^verbatim>\<open>version\<close> unbound.
\<close>

definition version :: "byte list \<Rightarrow> py_error + str" where
  "version encoded_text =
     (if startswith encoded_text BOM_UTF16_LE then
        (let encoded_text' = drop (length BOM_UTF16_LE) encoded_text
         in case decode encoded_text' ''utf-16le'' of
              Inl e \<Rightarrow> Inl e
            | Inr decoded_text \<Rightarrow> Inr (strip decoded_text))
      else
        (case decode encoded_text ''utf-8'' of
           Inl e \<Rightarrow> Inl e
         | Inr decoded_text \<Rightarrow> Inr (strip decoded_text)))"

section \<open>Notions used to state the properties\<close>

text \<open>
  A data row the inner loop passes: it has the three fields the loop reads, and its code
  is a documented topic.
\<close>

definition row_ok :: "string set \<Rightarrow> string list \<Rightarrow> bool" where
  "row_ok topics row = (3 \<le> length row \<and> row ! 0 \<in> topics)"

text \<open>
  The dictionary that a sequence of passed rows leaves behind: a later row for a code
  replaces an earlier one.
\<close>

definition entry :: "string list \<Rightarrow> string \<times> ProblemCode" where
  "entry row = (row ! 0, \<lparr>message = row ! 2\<rparr>)"

definition registry_of :: "string list list \<Rightarrow> string \<rightharpoonup> ProblemCode" where
  "registry_of rows = map_of (rev (map entry rows))"

text \<open>
  A file system with the two directories and the two catalogs the module reads, and
  nothing else.
\<close>

definition mk_fs ::
  "string list \<Rightarrow> string list \<Rightarrow> string list list \<Rightarrow> string list list \<Rightarrow> filesystem" where
  "mk_fs compiler_listing vscode_listing compiler_catalog vscode_catalog =
     \<lparr>listdir = (\<lambda>p. if p = compiler_problems then Some compiler_listing
                     else if p = vscode_problems then Some vscode_listing
                     else None),
      csv_rows = (\<lambda>p. if p = definitions ! 0 then Some compiler_catalog
                      else if p = definitions ! 1 then Some vscode_catalog
                      else None)\<rparr>"

definition csv_header :: "string list" where
  "csv_header = [''Code'', ''Name'', ''Message'']"

text \<open>Two documented codes, both catalogued; the second catalog defines \<open>E001\<close> again.\<close>

definition fs_documented :: filesystem where
  "fs_documented =
     mk_fs [''E001.rst'', ''E002.rst''] [''V001.rst'']
       [csv_header, [''E001'', ''Category'', ''Msg1''], [''E002'', ''Category'', ''Msg2'']]
       [csv_header, [''E001'', ''Category'', ''Msg4''], [''V001'', ''Category'', ''Msg3'']]"

text \<open>The same directories, and a catalogued code \<open>E099\<close> with no help file.\<close>

definition fs_missing :: filesystem where
  "fs_missing =
     mk_fs [''E001.rst'', ''E002.rst''] [''V001.rst'']
       [csv_header, [''E001'', ''Category'', ''Msg1''], [''E002'', ''Category'', ''Msg2''],
        [''E099'', ''Category'', ''Missing'']]
       [csv_header, [''V001'', ''Category'', ''Msg3'']]"

text \<open>Two catalogued codes with no help file, \<open>E098\<close> before \<open>E099\<close>.\<close>

definition fs_two_missing :: filesystem where
  "fs_two_missing =
     mk_fs [''E001.rst''] []
       [csv_header, [''E001'', ''Category'', ''Msg1''], [''E098'', ''Category'', ''First''],
        [''E099'', ''Category'', ''Second'']]
       [csv_header]"

section \<open>Lemmas\<close>

subsection \<open>Splitting and file names\<close>

lemma str_split_nonempty: "str_split s sep \<noteq> []"
  by (induction s) (auto split: list.splits)

lemma hd_str_split: "hd (str_split s sep) = takeWhile (\<lambda>c. c \<noteq> sep) s"
  by (induction s) (auto simp: str_split_nonempty split: list.splits)

lemma help_topic_takeWhile: "help_topic v = takeWhile (\<lambda>c. c \<noteq> CHR ''.'') v"
  by (simp add: help_topic_def hd_str_split)

lemma help_topic_base:
  assumes "CHR ''.'' \<notin> set base"
  shows "help_topic base = base \<and> help_topic (base @ ''.'' @ ext) = base"
  using assms by (induction base) (auto simp: help_topic_takeWhile)

subsection \<open>The inner loop\<close>

lemma getitem_ok:
  "row_ok T r \<Longrightarrow> getitem r 0 = Inr (r ! 0) \<and> getitem r 2 = Inr (r ! 2) \<and> r ! 0 \<in> T"
  by (auto simp: row_ok_def getitem_def)

lemma registry_of_Nil: "registry_of [] = Map.empty"
  by (simp add: registry_of_def)

lemma registry_of_Cons:
  "m ++ registry_of (r # rows) = (m(r ! 0 \<mapsto> \<lparr>message = r ! 2\<rparr>)) ++ registry_of rows"
  by (simp add: registry_of_def entry_def map_add_def fun_eq_iff split: option.splits)

lemma registry_of_append: "registry_of (xs @ ys) = registry_of xs ++ registry_of ys"
  by (simp add: registry_of_def)

lemma registry_of_last:
  assumes "\<forall>r \<in> set later. r ! 0 \<noteq> row ! 0"
  shows "registry_of (earlier @ row # later) (row ! 0) = Some \<lparr>message = row ! 2\<rparr>"
proof -
  have "row ! 0 \<notin> fst ` set (rev (map entry later))"
    using assms by (auto simp: entry_def)
  then have "map_of (rev (map entry later)) (row ! 0) = None"
    by (metis map_of_eq_None_iff)
  then show ?thesis
    by (simp add: registry_of_def map_add_def entry_def)
qed

lemma registry_of_defined:
  assumes "row \<in> set rows"
  shows "registry_of rows (row ! 0) \<noteq> None"
proof -
  have "row ! 0 \<in> fst ` set (rev (map entry rows))"
    using assms by (force simp: entry_def)
  then show ?thesis
    unfolding registry_of_def by (metis map_of_eq_None_iff)
qed

lemma dom_registry_of: "dom (registry_of rows) = (\<lambda>r. r ! 0) ` set rows"
  by (force simp: registry_of_def dom_map_of_conv_image_fst entry_def)

lemma registry_of_empty_iff: "(registry_of rows = Map.empty) = (rows = [])"
proof
  assume "registry_of rows = Map.empty"
  then have "dom (registry_of rows) = {}" by simp
  then have "set rows = {}" by (simp only: dom_registry_of image_is_empty)
  then show "rows = []" by simp
next
  assume "rows = []"
  then show "registry_of rows = Map.empty" by (simp add: registry_of_def)
qed

lemma process_rows_append:
  "process_rows T (pre @ rest) s =
     (case process_rows T pre s of
        (Inl a, s') \<Rightarrow> (Inl a, s')
      | (Inr u, s') \<Rightarrow> process_rows T rest s')"
  by (induction pre arbitrary: s) (auto split: sum.splits)

lemma process_rows_all_ok:
  "list_all (row_ok T) rows \<Longrightarrow>
   process_rows T rows s = (Inr (), s\<lparr>problem_infos := problem_infos s ++ registry_of rows\<rparr>)"
proof (induction rows arbitrary: s)
  case Nil
  then show ?case by (simp add: registry_of_def)
next
  case (Cons r rows)
  from Cons.prems have ok: "row_ok T r" and rest: "list_all (row_ok T) rows"
    by simp_all
  have "process_rows T (r # rows) s =
          process_rows T rows (s\<lparr>problem_infos := (problem_infos s)(r ! 0 \<mapsto> \<lparr>message = r ! 2\<rparr>)\<rparr>)"
    using getitem_ok [OF ok] by simp
  also have "\<dots> = (Inr (), s\<lparr>problem_infos := (problem_infos s)(r ! 0 \<mapsto> \<lparr>message = r ! 2\<rparr>) ++ registry_of rows\<rparr>)"
    by (simp add: Cons.IH [OF rest] fun_upd_def)
  also have "\<dots> = (Inr (), s\<lparr>problem_infos := problem_infos s ++ registry_of (r # rows)\<rparr>)"
    by (simp only: registry_of_Cons)
  finally show ?case .
qed

lemma process_rows_success_ok:
  "process_rows T rows s = (Inr u, s') \<Longrightarrow> list_all (row_ok T) rows"
  by (induction rows arbitrary: s) (auto simp: row_ok_def getitem_def split: if_splits sum.splits)

lemma process_rows_success:
  assumes "process_rows T rows s = (Inr u, s')"
  shows "list_all (row_ok T) rows \<and> s' = s\<lparr>problem_infos := problem_infos s ++ registry_of rows\<rparr>"
  using assms process_rows_success_ok [OF assms]
    process_rows_all_ok [OF process_rows_success_ok [OF assms], of s] by simp

lemma process_rows_first_missing:
  assumes "list_all (row_ok T) pre" "r \<noteq> []" "r ! 0 \<notin> T"
  shows "process_rows T (pre @ r # post) s =
           (Inl (SystemExit 1),
            s\<lparr>problem_infos := problem_infos s ++ registry_of pre,
              stdout := stdout s @ [missing_message (r ! 0)]\<rparr>)"
  using assms by (simp add: process_rows_append process_rows_all_ok getitem_def)

lemma process_rows_exit_split:
  "process_rows T rows s = (Inl (SystemExit n), s') \<Longrightarrow>
   \<exists>pre r post. rows = pre @ r # post \<and> list_all (row_ok T) pre \<and> r \<noteq> [] \<and> r ! 0 \<notin> T"
proof (induction rows arbitrary: s)
  case Nil
  then show ?case by simp
next
  case (Cons row rows)
  show ?case
  proof (cases "row_ok T row")
    case True
    with Cons.prems getitem_ok [OF True] have "process_rows T rows
        (s\<lparr>problem_infos := (problem_infos s)(row ! 0 \<mapsto> \<lparr>message = row ! 2\<rparr>)\<rparr>) = (Inl (SystemExit n), s')"
      by simp
    from Cons.IH [OF this] obtain pre r post where
      "rows = pre @ r # post" "list_all (row_ok T) pre" "r \<noteq> []" "r ! 0 \<notin> T" by blast
    with True have "row # rows = (row # pre) @ r # post \<and> list_all (row_ok T) (row # pre) \<and> r \<noteq> [] \<and> r ! 0 \<notin> T"
      by simp
    then show ?thesis by blast
  next
    case False
    with Cons.prems have "row \<noteq> [] \<and> row ! 0 \<notin> T"
      by (auto simp: row_ok_def getitem_def split: if_splits)
    then have "row # rows = [] @ row # rows \<and> list_all (row_ok T) [] \<and> row \<noteq> [] \<and> row ! 0 \<notin> T"
      by simp
    then show ?thesis by blast
  qed
qed

lemma process_rows_exit:
  assumes "process_rows T rows s = (Inl (SystemExit n), s')"
  shows "n = 1 \<and> (\<exists>pre r post. rows = pre @ r # post \<and> list_all (row_ok T) pre \<and> r \<noteq> []
           \<and> r ! 0 \<notin> T
           \<and> s' = s\<lparr>problem_infos := problem_infos s ++ registry_of pre,
                    stdout := stdout s @ [missing_message (r ! 0)]\<rparr>)"
proof -
  from process_rows_exit_split [OF assms] obtain pre r post where
    split: "rows = pre @ r # post" and ok: "list_all (row_ok T) pre"
    and r: "r \<noteq> []" "r ! 0 \<notin> T" by blast
  from process_rows_first_missing [OF ok r, of post s] assms split
  have "n = 1" and "s' = s\<lparr>problem_infos := problem_infos s ++ registry_of pre,
                    stdout := stdout s @ [missing_message (r ! 0)]\<rparr>"
    by simp_all
  with split ok r show ?thesis by blast
qed

text \<open>On rows of three fields or more, the loop stops at the first row whose code is missing.\<close>

lemma find_missing_split:
  assumes "list_all (\<lambda>r. 3 \<le> length r) rows"
  shows "case find (\<lambda>r. r ! 0 \<notin> T) rows of
           None \<Rightarrow> list_all (row_ok T) rows
         | Some r \<Rightarrow> \<exists>pre post. rows = pre @ r # post \<and> list_all (row_ok T) pre
                       \<and> r \<noteq> [] \<and> r ! 0 \<notin> T"
  using assms
proof (induction rows)
  case Nil
  then show ?case by simp
next
  case (Cons row rows)
  show ?case
  proof (cases "row ! 0 \<in> T")
    case True
    with Cons.prems have ok: "row_ok T row" by (simp add: row_ok_def)
    from Cons have ih: "case find (\<lambda>r. r ! 0 \<notin> T) rows of
           None \<Rightarrow> list_all (row_ok T) rows
         | Some r \<Rightarrow> \<exists>pre post. rows = pre @ r # post \<and> list_all (row_ok T) pre
                       \<and> r \<noteq> [] \<and> r ! 0 \<notin> T" by simp
    show ?thesis
    proof (cases "find (\<lambda>r. r ! 0 \<notin> T) rows")
      case None
      with ih ok True show ?thesis by simp
    next
      case (Some r)
      with ih obtain pre post where "rows = pre @ r # post" "list_all (row_ok T) pre"
        "r \<noteq> []" "r ! 0 \<notin> T" by auto
      with ok have "row # rows = (row # pre) @ r # post \<and> list_all (row_ok T) (row # pre)
                       \<and> r \<noteq> [] \<and> r ! 0 \<notin> T" by simp
      then have "\<exists>pre post. row # rows = pre @ r # post \<and> list_all (row_ok T) pre
                       \<and> r \<noteq> [] \<and> r ! 0 \<notin> T" by blast
      with Some True show ?thesis by simp
    qed
  next
    case False
    from Cons.prems have "row \<noteq> []" by auto
    with False have "row # rows = [] @ row # rows \<and> list_all (row_ok T) []
                       \<and> row \<noteq> [] \<and> row ! 0 \<notin> T" by simp
    then have "\<exists>pre post. row # rows = pre @ row # post \<and> list_all (row_ok T) pre
                       \<and> row \<noteq> [] \<and> row ! 0 \<notin> T" by blast
    with False show ?thesis by simp
  qed
qed

subsection \<open>The module as a whole\<close>

lemma definitions_eq:
  "definitions = [''../compiler/problems/resources/problem-codes.csv'',
                  ''../integrations/vscode/resources/problem-codes.csv'']"
  by (simp add: definitions_def)

lemma init_catalogs:
  assumes "listdir fs compiler_problems = Some cl" and "listdir fs vscode_problems = Some vl"
  shows "init fs =
     (case csv_rows fs (definitions ! 0) of
        None \<Rightarrow> (Inl (Exception OSError), initial_state)
      | Some [] \<Rightarrow> (Inl (Exception StopIteration), initial_state)
      | Some (h1 # rows1) \<Rightarrow>
          (case process_rows (help_topics cl vl) rows1 initial_state of
             (Inl a, s') \<Rightarrow> (Inl a, s')
           | (Inr u, s') \<Rightarrow>
               (case csv_rows fs (definitions ! 1) of
                  None \<Rightarrow> (Inl (Exception OSError), s')
                | Some [] \<Rightarrow> (Inl (Exception StopIteration), s')
                | Some (h2 # rows2) \<Rightarrow> process_rows (help_topics cl vl) rows2 s')))"
  using assms
  by (auto simp: init_def definitions_eq split: option.splits list.splits sum.splits prod.splits)

lemma init_both_catalogs:
  assumes "listdir fs compiler_problems = Some cl" and "listdir fs vscode_problems = Some vl"
    and "csv_rows fs (definitions ! 0) = Some (h1 # rows1)"
    and "csv_rows fs (definitions ! 1) = Some (h2 # rows2)"
  shows "init fs = process_rows (help_topics cl vl) (rows1 @ rows2) initial_state"
  using assms(3,4)
  by (simp add: init_catalogs [OF assms(1,2)] process_rows_append split: sum.splits prod.splits)

lemma init_success:
  assumes "init fs = (Inr u, s)"
  shows "\<exists>cl vl h1 rows1 h2 rows2.
           listdir fs compiler_problems = Some cl \<and> listdir fs vscode_problems = Some vl
           \<and> csv_rows fs (definitions ! 0) = Some (h1 # rows1)
           \<and> csv_rows fs (definitions ! 1) = Some (h2 # rows2)
           \<and> list_all (row_ok (help_topics cl vl)) (rows1 @ rows2)
           \<and> problem_infos s = registry_of (rows1 @ rows2) \<and> stdout s = []"
proof -
  from assms obtain cl vl where
    dirs: "listdir fs compiler_problems = Some cl" "listdir fs vscode_problems = Some vl"
    by (auto simp: init_def split: option.splits)
  from assms obtain h1 rows1 where c1: "csv_rows fs (definitions ! 0) = Some (h1 # rows1)"
    by (auto simp: init_catalogs [OF dirs] split: option.splits list.splits)
  from assms c1 obtain h2 rows2 where c2: "csv_rows fs (definitions ! 1) = Some (h2 # rows2)"
    by (auto simp: init_catalogs [OF dirs] split: option.splits list.splits sum.splits prod.splits)
  from assms have "process_rows (help_topics cl vl) (rows1 @ rows2) initial_state = (Inr u, s)"
    by (simp add: init_both_catalogs [OF dirs c1 c2])
  from process_rows_success [OF this]
  have "list_all (row_ok (help_topics cl vl)) (rows1 @ rows2)"
    and "problem_infos s = registry_of (rows1 @ rows2)" and "stdout s = []"
    by (simp_all add: initial_state_def)
  with dirs c1 c2 show ?thesis by blast
qed

subsection \<open>The example file systems\<close>

lemma mk_fs_reads:
  "listdir (mk_fs cl vl c1 c2) compiler_problems = Some cl"
  "listdir (mk_fs cl vl c1 c2) vscode_problems = Some vl"
  "csv_rows (mk_fs cl vl c1 c2) (definitions ! 0) = Some c1"
  "csv_rows (mk_fs cl vl c1 c2) (definitions ! 1) = Some c2"
  by (simp_all add: mk_fs_def compiler_problems_def vscode_problems_def definitions_eq)

lemma init_mk_fs:
  "init (mk_fs cl vl (h1 # rows1) (h2 # rows2)) =
     process_rows (help_topics cl vl) (rows1 @ rows2) initial_state"
  by (rule init_both_catalogs) (rule mk_fs_reads)+

lemma topics_documented:
  "help_topics [''E001.rst'', ''E002.rst''] [''V001.rst''] = {''E001'', ''E002'', ''V001''}"
  by (simp add: help_topics_def help_topic_takeWhile insert_commute)

lemma init_fs_documented:
  "fst (init fs_documented) = Inr ()"
  "stdout (snd (init fs_documented)) = []"
  "problem_infos (snd (init fs_documented)) ''E001'' = Some \<lparr>message = ''Msg4''\<rparr>"
  "problem_infos (snd (init fs_documented)) ''E002'' = Some \<lparr>message = ''Msg2''\<rparr>"
  "problem_infos (snd (init fs_documented)) ''V001'' = Some \<lparr>message = ''Msg3''\<rparr>"
  "problem_infos (snd (init fs_documented)) ''E009'' = None"
  by (simp_all add: fs_documented_def init_mk_fs topics_documented getitem_def initial_state_def)

lemma init_fs_missing:
  "fst (init fs_missing) = Inl (SystemExit 1)"
  "stdout (snd (init fs_missing)) = [''Missing help topic for E099'']"
  "problem_infos (snd (init fs_missing)) ''E001'' = Some \<lparr>message = ''Msg1''\<rparr>"
  "problem_infos (snd (init fs_missing)) ''E002'' = Some \<lparr>message = ''Msg2''\<rparr>"
  by (simp_all add: fs_missing_def init_mk_fs topics_documented getitem_def initial_state_def
        missing_message_def)

lemma init_fs_two_missing:
  "fst (init fs_two_missing) = Inl (SystemExit 1)"
  "stdout (snd (init fs_two_missing)) = [''Missing help topic for E098'']"
  by (simp_all add: fs_two_missing_def init_mk_fs help_topics_def help_topic_takeWhile
        getitem_def initial_state_def missing_message_def)

subsection \<open>The directive\<close>

lemma run_state: "snd (run s arguments) = s"
  by (simp add: run_def split: sum.splits option.splits)

lemma runs_state: "runs s calls = s"
  by (induction calls arbitrary: s) (simp_all add: run_state)

subsection \<open>Stripping and decoding\<close>

lemma rev_dropWhile_takeWhile:
  "rev (dropWhile P (rev u)) @ rev (takeWhile P (rev u)) = u"
proof -
  have "rev (takeWhile P (rev u) @ dropWhile P (rev u)) = rev (rev u)"
    by (simp only: takeWhile_dropWhile_id)
  then show ?thesis
    by (simp only: rev_append rev_rev_ident)
qed

lemma decode_utf8: "decode b ''utf-8'' = utf8_decode (map unat b)"
  by (simp add: decode_def)

lemma decode_utf16le: "decode b ''utf-16le'' = utf16le_decode (map unat b)"
  by (simp add: decode_def)

lemma strip_decomp:
  "\<exists>pre post. t = pre @ strip t @ post \<and> list_all isspace pre \<and> list_all isspace post"
proof -
  let ?u = "dropWhile isspace t"
  have u: "?u = strip t @ rev (takeWhile isspace (rev ?u))"
    unfolding strip_def by (rule rev_dropWhile_takeWhile [symmetric])
  have "t = takeWhile isspace t @ ?u" by simp
  with u have "t = takeWhile isspace t @ strip t @ rev (takeWhile isspace (rev ?u))"
    by simp
  moreover have "list_all isspace (takeWhile isspace t)"
    by (simp add: list_all_iff) (meson set_takeWhileD)
  moreover have "list_all isspace (rev (takeWhile isspace (rev ?u)))"
    by (simp add: list_all_iff) (meson set_takeWhileD)
  ultimately show ?thesis by blast
qed

lemma strip_ends:
  assumes "strip t \<noteq> []"
  shows "\<not> isspace (hd (strip t)) \<and> \<not> isspace (last (strip t))"
proof -
  let ?u = "dropWhile isspace t"
  let ?v = "dropWhile isspace (rev ?u)"
  from assms have v: "?v \<noteq> []" by (simp add: strip_def)
  then have "\<not> isspace (hd ?v)" by (rule hd_dropWhile)
  with v have l: "\<not> isspace (last (strip t))"
    by (simp add: strip_def last_rev)
  have u: "?u \<noteq> []"
  proof
    assume "?u = []"
    then have "?v = []" by (simp only: rev.simps dropWhile.simps)
    with v show False by blast
  qed
  then have nu: "\<not> isspace (hd ?u)" by (rule hd_dropWhile)
  have "?u = strip t @ rev (takeWhile isspace (rev ?u))"
    unfolding strip_def by (rule rev_dropWhile_takeWhile [symmetric])
  then have "hd ?u = hd (strip t @ rev (takeWhile isspace (rev ?u)))" by simp
  with assms have "hd ?u = hd (strip t)" by simp
  with nu l show ?thesis by simp
qed

lemma utf8_decode_ascii: "\<forall>c \<in> set t. c < 0x80 \<Longrightarrow> utf8_decode t = Inr t"
  by (induction t) simp_all

lemma utf16le_decode_ascii:
  "\<forall>c \<in> set t. c < 0x80 \<Longrightarrow> utf16le_decode (concat (map (\<lambda>c. [c, 0]) t)) = Inr t"
  by (induction t) simp_all

lemma unat_of_nat_byte: "c < 0x80 \<Longrightarrow> unat (of_nat c :: byte) = c"
  by (simp add: unat_of_nat)

lemma map_unat_ascii:
  "\<forall>c \<in> set t. c < 0x80 \<Longrightarrow> map unat (map of_nat t :: byte list) = t"
  by (induction t) (simp_all add: unat_of_nat_byte)

lemma map_unat_ascii16:
  "\<forall>c \<in> set t. c < 0x80 \<Longrightarrow>
   map unat (concat (map (\<lambda>c. [of_nat c, 0]) t) :: byte list) = concat (map (\<lambda>c. [c, 0]) t)"
  by (induction t) (simp_all add: unat_of_nat_byte)

lemma ascii_no_bom:
  assumes "\<forall>c \<in> set t. c < 0x80"
  shows "\<not> startswith (map of_nat t :: byte list) BOM_UTF16_LE"
proof
  assume "startswith (map of_nat t :: byte list) BOM_UTF16_LE"
  then obtain c cs where t: "t = c # cs" and "(of_nat c :: byte) = 0xFF"
    by (cases t) (auto simp: startswith_def BOM_UTF16_LE_def)
  then have "unat (of_nat c :: byte) = 0xFF" by simp
  moreover from assms t have "c < 0x80" by simp
  ultimately show False by (simp add: unat_of_nat_byte)
qed

lemma startswith_append: "startswith (p @ s) p"
  by (simp add: startswith_def)

lemma strip_example: "strip [0x20, 0x30, 0x2E, 0x31, 0x2E, 0x30, 0x0D, 0x0A] = [0x30, 0x2E, 0x31, 0x2E, 0x30]"
  by (simp add: strip_def isspace_def)

section \<open>The claims\<close>

text \<open>
  C1. When the module's top-level code runs to its end, every data row of each of the two
  catalogs has a code, that code is among the documented topics (the topics of the two
  directory listings), and the dictionary holds an entry for it.
\<close>

theorem catalog_codes_documented:
  assumes "init fs = (Inr u, s)"
    and "listdir fs compiler_problems = Some compiler_listing"
    and "listdir fs vscode_problems = Some vscode_listing"
    and "d \<in> set definitions"
    and "csv_rows fs d = Some (header # rows)"
    and "row \<in> set rows"
  shows "\<exists>code. getitem row 0 = Inr code
           \<and> code \<in> help_topics compiler_listing vscode_listing
           \<and> problem_infos s code \<noteq> None"
proof -
  from init_success [OF assms(1)] assms(2,3) obtain h1 rows1 h2 rows2 where
    c1: "csv_rows fs (definitions ! 0) = Some (h1 # rows1)"
    and c2: "csv_rows fs (definitions ! 1) = Some (h2 # rows2)"
    and ok: "list_all (row_ok (help_topics compiler_listing vscode_listing)) (rows1 @ rows2)"
    and reg: "problem_infos s = registry_of (rows1 @ rows2)"
    by auto
  from assms(4) have "d = definitions ! 0 \<or> d = definitions ! 1"
    by (auto simp: definitions_eq)
  with assms(5) c1 c2 have "rows = rows1 \<or> rows = rows2" by auto
  with assms(6) have mem: "row \<in> set (rows1 @ rows2)" by auto
  with ok have "row_ok (help_topics compiler_listing vscode_listing) row"
    by (simp only: list_all_iff)
  from getitem_ok [OF this] registry_of_defined [OF mem] reg show ?thesis by simp
qed

theorem catalog_codes_documented_witness:
  "init fs_documented = (Inr (), snd (init fs_documented))
   \<and> listdir fs_documented compiler_problems = Some [''E001.rst'', ''E002.rst'']
   \<and> listdir fs_documented vscode_problems = Some [''V001.rst'']
   \<and> definitions ! 0 \<in> set definitions
   \<and> csv_rows fs_documented (definitions ! 0) =
       Some (csv_header # [[''E001'', ''Category'', ''Msg1''], [''E002'', ''Category'', ''Msg2'']])
   \<and> [''E002'', ''Category'', ''Msg2'']
       \<in> set [[''E001'', ''Category'', ''Msg1''], [''E002'', ''Category'', ''Msg2'']]
   \<and> (\<exists>code. getitem [''E002'', ''Category'', ''Msg2''] 0 = Inr code
         \<and> code \<in> help_topics [''E001.rst'', ''E002.rst''] [''V001.rst'']
         \<and> problem_infos (snd (init fs_documented)) code \<noteq> None)"
proof -
  have h1: "init fs_documented = (Inr (), snd (init fs_documented))"
    using init_fs_documented(1) by (simp add: prod_eq_iff)
  have h2: "listdir fs_documented compiler_problems = Some [''E001.rst'', ''E002.rst'']"
    and h3: "listdir fs_documented vscode_problems = Some [''V001.rst'']"
    and h5: "csv_rows fs_documented (definitions ! 0) =
       Some (csv_header # [[''E001'', ''Category'', ''Msg1''], [''E002'', ''Category'', ''Msg2'']])"
    by (simp_all add: fs_documented_def mk_fs_reads)
  have h4: "definitions ! 0 \<in> set definitions"
    by (simp add: definitions_eq)
  have h6: "[''E002'', ''Category'', ''Msg2'']
       \<in> set [[''E001'', ''Category'', ''Msg1''], [''E002'', ''Category'', ''Msg2'']]"
    by simp
  from catalog_codes_documented [OF h1 h2 h3 h4 h5 h6] h1 h2 h3 h4 h5 h6
  show ?thesis by blast
qed

text \<open>
  C2, as the code has it. Take catalogs that can be read, each with a header row and with
  data rows of three fields or more. The module exits with a non-zero status exactly when
  the code of some data row is not a documented topic. It then stops at the first such row,
  in the order compiler catalog, editor catalog: the status is 1 and the one line printed
  is \<^verbatim>\<open>Missing help topic for\<close> followed by the code of that row. Codes missing further
  down are not reported. When no code is missing, nothing is printed.
\<close>

theorem exit_at_first_missing_code:
  assumes "listdir fs compiler_problems = Some compiler_listing"
    and "listdir fs vscode_problems = Some vscode_listing"
    and "csv_rows fs (definitions ! 0) = Some (h1 # rows1)"
    and "csv_rows fs (definitions ! 1) = Some (h2 # rows2)"
    and "\<forall>r \<in> set (rows1 @ rows2). 3 \<le> length r"
  shows "((\<exists>n. n \<noteq> 0 \<and> fst (init fs) = Inl (SystemExit n)) \<longleftrightarrow>
            (\<exists>r \<in> set (rows1 @ rows2). r ! 0 \<notin> help_topics compiler_listing vscode_listing))
         \<and> (case find (\<lambda>r. r ! 0 \<notin> help_topics compiler_listing vscode_listing) (rows1 @ rows2) of
               None \<Rightarrow> fst (init fs) = Inr () \<and> stdout (snd (init fs)) = []
             | Some r \<Rightarrow> fst (init fs) = Inl (SystemExit 1)
                          \<and> stdout (snd (init fs)) = [''Missing help topic for '' @ r ! 0])"
proof -
  let ?T = "help_topics compiler_listing vscode_listing"
  let ?rows = "rows1 @ rows2"
  have run: "init fs = process_rows ?T ?rows initial_state"
    by (rule init_both_catalogs [OF assms(1-4)])
  from assms(5) have wf: "list_all (\<lambda>r. 3 \<le> length r) ?rows"
    by (simp only: list_all_iff)
  show ?thesis
  proof (cases "find (\<lambda>r. r ! 0 \<notin> ?T) ?rows")
    case None
    with find_missing_split [OF wf, of ?T] have "list_all (row_ok ?T) ?rows" by simp
    from process_rows_all_ok [OF this, of initial_state] run
    have res: "fst (init fs) = Inr ()" "stdout (snd (init fs)) = []"
      by (simp_all add: initial_state_def)
    from None have "\<not> (\<exists>r \<in> set ?rows. r ! 0 \<notin> ?T)"
      by (auto simp: find_None_iff)
    with res None show ?thesis by simp
  next
    case (Some r)
    with find_missing_split [OF wf, of ?T] obtain pre post where
      split: "?rows = pre @ r # post" and ok: "list_all (row_ok ?T) pre"
      and r: "r \<noteq> []" "r ! 0 \<notin> ?T" by auto
    from process_rows_first_missing [OF ok r, of post initial_state] run split
    have res: "fst (init fs) = Inl (SystemExit 1)"
      "stdout (snd (init fs)) = [''Missing help topic for '' @ r ! 0]"
      by (simp_all add: initial_state_def missing_message_def)
    from split have "r \<in> set ?rows" by simp
    with r(2) have "\<exists>r \<in> set ?rows. r ! 0 \<notin> ?T" by blast
    moreover from res(1) have "\<exists>n. n \<noteq> 0 \<and> fst (init fs) = Inl (SystemExit n)" by simp
    ultimately show ?thesis using res Some by simp
  qed
qed

theorem exit_at_first_missing_code_witness:
  "listdir fs_two_missing compiler_problems = Some [''E001.rst'']
   \<and> listdir fs_two_missing vscode_problems = Some []
   \<and> csv_rows fs_two_missing (definitions ! 0) =
       Some (csv_header # [[''E001'', ''Category'', ''Msg1''], [''E098'', ''Category'', ''First''],
                           [''E099'', ''Category'', ''Second'']])
   \<and> csv_rows fs_two_missing (definitions ! 1) = Some (csv_header # [])
   \<and> find (\<lambda>r. r ! 0 \<notin> help_topics [''E001.rst''] [])
        ([[''E001'', ''Category'', ''Msg1''], [''E098'', ''Category'', ''First''],
          [''E099'', ''Category'', ''Second'']] @ []) = Some [''E098'', ''Category'', ''First'']
   \<and> fst (init fs_two_missing) = Inl (SystemExit 1)
   \<and> stdout (snd (init fs_two_missing)) = [''Missing help topic for E098'']"
proof -
  have h1: "listdir fs_two_missing compiler_problems = Some [''E001.rst'']"
    and h2: "listdir fs_two_missing vscode_problems = Some []"
    by (simp_all add: fs_two_missing_def mk_fs_reads)
  have h3: "csv_rows fs_two_missing (definitions ! 0) =
       Some (csv_header # [[''E001'', ''Category'', ''Msg1''], [''E098'', ''Category'', ''First''],
                           [''E099'', ''Category'', ''Second'']])"
    and h4: "csv_rows fs_two_missing (definitions ! 1) = Some (csv_header # [])"
    by (simp_all add: fs_two_missing_def mk_fs_def definitions_eq)
  have h5: "\<forall>r \<in> set ([[''E001'', ''Category'', ''Msg1''], [''E098'', ''Category'', ''First''],
                           [''E099'', ''Category'', ''Second'']] @ []). 3 \<le> length r"
    by simp
  have f: "find (\<lambda>r. r ! 0 \<notin> help_topics [''E001.rst''] [])
        ([[''E001'', ''Category'', ''Msg1''], [''E098'', ''Category'', ''First''],
          [''E099'', ''Category'', ''Second'']] @ []) = Some [''E098'', ''Category'', ''First'']"
    by (simp add: help_topics_def help_topic_takeWhile)
  from exit_at_first_missing_code [OF h1 h2 h3 h4 h5] f
  have "fst (init fs_two_missing) = Inl (SystemExit 1)
        \<and> stdout (snd (init fs_two_missing)) = [''Missing help topic for E098'']"
    by simp
  with h1 h2 h3 h4 f show ?thesis by blast
qed

text \<open>
  C2 as stated fails where two catalogued codes have no help file: \<open>E099\<close> is the code of
  a row and is not a documented topic, yet the only line printed names \<open>E098\<close>.
\<close>

theorem second_missing_code_not_named:
  "listdir fs_two_missing compiler_problems = Some [''E001.rst'']
   \<and> listdir fs_two_missing vscode_problems = Some []
   \<and> csv_rows fs_two_missing (definitions ! 0) =
       Some [csv_header, [''E001'', ''Category'', ''Msg1''], [''E098'', ''Category'', ''First''],
             [''E099'', ''Category'', ''Second'']]
   \<and> ''E099'' \<notin> help_topics [''E001.rst''] []
   \<and> fst (init fs_two_missing) = Inl (SystemExit 1)
   \<and> stdout (snd (init fs_two_missing)) = [''Missing help topic for E098'']
   \<and> ''Missing help topic for E099'' \<notin> set (stdout (snd (init fs_two_missing)))"
proof -
  have "listdir fs_two_missing compiler_problems = Some [''E001.rst'']"
    and "listdir fs_two_missing vscode_problems = Some []"
    by (simp_all add: fs_two_missing_def mk_fs_reads)
  moreover have "csv_rows fs_two_missing (definitions ! 0) =
       Some [csv_header, [''E001'', ''Category'', ''Msg1''], [''E098'', ''Category'', ''First''],
             [''E099'', ''Category'', ''Second'']]"
    by (simp add: fs_two_missing_def mk_fs_def definitions_eq)
  moreover have "''E099'' \<notin> help_topics [''E001.rst''] []"
    by (simp add: help_topics_def help_topic_takeWhile)
  ultimately show ?thesis
    by (simp add: init_fs_two_missing)
qed

text \<open>
  C3. The catalogs are read in the order of \<open>definitions\<close>, the compiler's first and the
  editor extension's second. When the module's code runs to its end, the message stored
  for a code is that of the last row for this code in the second catalog, whatever the
  first catalog said, and nothing is printed about the replacement.
\<close>

theorem last_catalog_wins:
  assumes "init fs = (Inr u, s)"
    and "csv_rows fs (definitions ! 1) = Some (header # earlier @ row # later)"
    and "\<forall>r \<in> set later. r ! 0 \<noteq> row ! 0"
  shows "definitions = [''../compiler/problems/resources/problem-codes.csv'',
                        ''../integrations/vscode/resources/problem-codes.csv'']
         \<and> problem_infos s (row ! 0) = Some \<lparr>message = row ! 2\<rparr>
         \<and> stdout s = []"
proof -
  from init_success [OF assms(1)] assms(2) obtain rows1 where
    reg: "problem_infos s = registry_of (rows1 @ earlier @ row # later)" and out: "stdout s = []"
    by auto
  have "registry_of ((rows1 @ earlier) @ row # later) (row ! 0) = Some \<lparr>message = row ! 2\<rparr>"
    by (rule registry_of_last [OF assms(3)])
  with reg out definitions_eq show ?thesis by simp
qed

theorem last_catalog_wins_witness:
  "init fs_documented = (Inr (), snd (init fs_documented))
   \<and> csv_rows fs_documented (definitions ! 0) =
       Some [csv_header, [''E001'', ''Category'', ''Msg1''], [''E002'', ''Category'', ''Msg2'']]
   \<and> csv_rows fs_documented (definitions ! 1) =
       Some (csv_header # [] @ [''E001'', ''Category'', ''Msg4'']
               # [[''V001'', ''Category'', ''Msg3'']])
   \<and> [''E001'', ''Category'', ''Msg4''] ! 0 = ''E001''
   \<and> ''E001'' \<notin> set (map (\<lambda>r. r ! 0) [[''V001'', ''Category'', ''Msg3'']])
   \<and> problem_infos (snd (init fs_documented)) ''E001'' = Some \<lparr>message = ''Msg4''\<rparr>
   \<and> stdout (snd (init fs_documented)) = []"
proof -
  have h1: "init fs_documented = (Inr (), snd (init fs_documented))"
    using init_fs_documented(1) by (simp add: prod_eq_iff)
  have h2: "csv_rows fs_documented (definitions ! 1) =
       Some (csv_header # [] @ [''E001'', ''Category'', ''Msg4'']
               # [[''V001'', ''Category'', ''Msg3'']])"
    by (simp add: fs_documented_def mk_fs_def definitions_eq)
  have h3: "\<forall>r \<in> set [[''V001'', ''Category'', ''Msg3'']].
              r ! 0 \<noteq> [''E001'', ''Category'', ''Msg4''] ! 0"
    by simp
  have h4: "csv_rows fs_documented (definitions ! 0) =
       Some [csv_header, [''E001'', ''Category'', ''Msg1''], [''E002'', ''Category'', ''Msg2'']]"
    by (simp add: fs_documented_def mk_fs_def definitions_eq)
  from last_catalog_wins [OF h1 h2 h3] h1 h2 h4 show ?thesis by simp
qed

text \<open>
  C4. For a code that has an entry in the dictionary, \<^verbatim>\<open>run\<close> returns one definition
  list of two items, in this order: the term \<open>Code\<close> with the code as its definition, and
  the term \<open>Message\<close> with the stored message as its definition, each definition a
  paragraph. The module state is the same after the call.
\<close>

theorem run_renders_code_and_message:
  assumes "problem_infos s code = Some info"
  shows "run s [code] =
           (Inr [nodes_definition_list ''''
                   [nodes_definition_list_item ''''
                      [nodes_term '''' '''' [nodes_strong ''Code''],
                       nodes_definition '''' [nodes_paragraph code]],
                    nodes_definition_list_item ''''
                      [nodes_term '''' '''' [nodes_strong ''Message''],
                       nodes_definition '''' [nodes_paragraph (message info)]]]],
            s)"
  using assms by (simp add: run_def getitem_def make_item_def)

theorem run_renders_code_and_message_witness:
  "problem_infos (snd (init fs_documented)) ''E002'' = Some \<lparr>message = ''Msg2''\<rparr>
   \<and> run (snd (init fs_documented)) [''E002''] =
           (Inr [nodes_definition_list ''''
                   [nodes_definition_list_item ''''
                      [nodes_term '''' '''' [nodes_strong ''Code''],
                       nodes_definition '''' [nodes_paragraph ''E002'']],
                    nodes_definition_list_item ''''
                      [nodes_term '''' '''' [nodes_strong ''Message''],
                       nodes_definition '''' [nodes_paragraph ''Msg2'']]]],
            snd (init fs_documented))"
  using run_renders_code_and_message [OF init_fs_documented(4)] init_fs_documented(4)
  by simp

text \<open>
  C5, as the code has it. When the module exits because a row's code is not a documented
  topic, the status is 1, one line naming the code has been printed, and the dictionary
  is not rolled back: it holds the entries of the rows that were read before that row,
  those of the compiler catalog and, if the row is in the editor catalog, those before it
  there. It is empty exactly when no row was read before that row.
\<close>

theorem exit_keeps_earlier_entries:
  assumes "init fs = (Inl (SystemExit n), s)"
  shows "n = 1 \<and>
         (\<exists>cl vl h1 rows1 passed row rest.
            listdir fs compiler_problems = Some cl \<and> listdir fs vscode_problems = Some vl
            \<and> csv_rows fs (definitions ! 0) = Some (h1 # rows1)
            \<and> (rows1 = passed @ row # rest
                \<or> (\<exists>h2 passed2. csv_rows fs (definitions ! 1) = Some (h2 # passed2 @ row # rest)
                      \<and> passed = rows1 @ passed2))
            \<and> list_all (row_ok (help_topics cl vl)) passed
            \<and> row \<noteq> [] \<and> row ! 0 \<notin> help_topics cl vl
            \<and> stdout s = [''Missing help topic for '' @ row ! 0]
            \<and> problem_infos s = registry_of passed
            \<and> dom (problem_infos s) = (\<lambda>r. r ! 0) ` set passed
            \<and> ((problem_infos s = Map.empty) = (passed = [])))"
proof -
  from assms obtain cl vl where
    dirs: "listdir fs compiler_problems = Some cl" "listdir fs vscode_problems = Some vl"
    by (auto simp: init_def split: option.splits)
  let ?T = "help_topics cl vl"
  from assms obtain h1 rows1 where c1: "csv_rows fs (definitions ! 0) = Some (h1 # rows1)"
    by (auto simp: init_catalogs [OF dirs] split: option.splits list.splits)
  have dom_reg: "dom (registry_of rows) = (\<lambda>r. r ! 0) ` set rows" for rows
    by (force simp: registry_of_def dom_map_of_conv_image_fst entry_def)
  obtain res1 s1 where p1: "process_rows ?T rows1 initial_state = (res1, s1)"
    by (cases "process_rows ?T rows1 initial_state")
  show ?thesis
  proof (cases res1)
    case (Inl a)
    with assms c1 p1 have "process_rows ?T rows1 initial_state = (Inl (SystemExit n), s)"
      by (simp add: init_catalogs [OF dirs])
    from process_rows_exit [OF this] obtain passed row rest where
      n: "n = 1" and split: "rows1 = passed @ row # rest" and ok: "list_all (row_ok ?T) passed"
      and row: "row \<noteq> []" "row ! 0 \<notin> ?T"
      and s: "s = initial_state\<lparr>problem_infos := problem_infos initial_state ++ registry_of passed,
                    stdout := stdout initial_state @ [missing_message (row ! 0)]\<rparr>"
      by blast
    from s have out: "stdout s = [''Missing help topic for '' @ row ! 0]"
      and reg: "problem_infos s = registry_of passed"
      by (simp_all add: initial_state_def missing_message_def)
    have dm: "dom (problem_infos s) = (\<lambda>r. r ! 0) ` set passed"
      by (simp only: reg dom_reg)
    have emp: "(problem_infos s = Map.empty) = (passed = [])"
      by (simp only: reg registry_of_empty_iff)
    have place: "rows1 = passed @ row # rest
                \<or> (\<exists>h2 passed2. csv_rows fs (definitions ! 1) = Some (h2 # passed2 @ row # rest)
                      \<and> passed = rows1 @ passed2)"
      using split by (rule disjI1)
    from n dirs c1 place ok row out reg dm emp show ?thesis
      by - (rule conjI, assumption, (rule exI)+, (rule conjI, assumption)+, assumption)
  next
    case (Inr u)
    with p1 have "process_rows ?T rows1 initial_state = (Inr u, s1)" by simp
    from process_rows_success [OF this]
    have ok1: "list_all (row_ok ?T) rows1"
      and s1: "s1 = initial_state\<lparr>problem_infos := problem_infos initial_state ++ registry_of rows1\<rparr>"
      by simp_all
    from assms c1 p1 Inr obtain h2 rows2 where
      c2: "csv_rows fs (definitions ! 1) = Some (h2 # rows2)"
      by (auto simp: init_catalogs [OF dirs] split: option.splits list.splits)
    with assms c1 p1 Inr have "process_rows ?T rows2 s1 = (Inl (SystemExit n), s)"
      by (simp add: init_catalogs [OF dirs])
    from process_rows_exit [OF this] obtain passed2 row rest where
      n: "n = 1" and split: "rows2 = passed2 @ row # rest" and ok2: "list_all (row_ok ?T) passed2"
      and row: "row \<noteq> []" "row ! 0 \<notin> ?T"
      and s: "s = s1\<lparr>problem_infos := problem_infos s1 ++ registry_of passed2,
                    stdout := stdout s1 @ [missing_message (row ! 0)]\<rparr>"
      by blast
    from s s1 have out: "stdout s = [''Missing help topic for '' @ row ! 0]"
      and reg: "problem_infos s = registry_of (rows1 @ passed2)"
      by (simp_all add: initial_state_def missing_message_def registry_of_append)
    from ok1 ok2 have ok: "list_all (row_ok ?T) (rows1 @ passed2)" by simp
    from c2 split have "\<exists>h2 passed2'. csv_rows fs (definitions ! 1) = Some (h2 # passed2' @ row # rest)
                      \<and> rows1 @ passed2 = rows1 @ passed2'" by simp
    then have place: "rows1 = (rows1 @ passed2) @ row # rest
                \<or> (\<exists>h2 passed2'. csv_rows fs (definitions ! 1) = Some (h2 # passed2' @ row # rest)
                      \<and> rows1 @ passed2 = rows1 @ passed2')"
      by (rule disjI2)
    have dm: "dom (problem_infos s) = (\<lambda>r. r ! 0) ` set (rows1 @ passed2)"
      by (simp only: reg dom_reg)
    have emp: "(problem_infos s = Map.empty) = (rows1 @ passed2 = [])"
      by (simp only: reg registry_of_empty_iff)
    from n dirs c1 place ok row out reg dm emp show ?thesis
      by - (rule conjI, assumption, (rule exI)+, (rule conjI, assumption)+, assumption)
  qed
qed

theorem exit_keeps_earlier_entries_witness:
  "init fs_missing = (Inl (SystemExit 1), snd (init fs_missing))
   \<and> csv_rows fs_missing (definitions ! 0) =
       Some (csv_header # [[''E001'', ''Category'', ''Msg1''], [''E002'', ''Category'', ''Msg2'']]
               @ [''E099'', ''Category'', ''Missing''] # [])
   \<and> stdout (snd (init fs_missing)) = [''Missing help topic for E099'']
   \<and> dom (problem_infos (snd (init fs_missing))) = {''E001'', ''E002''}
   \<and> (\<exists>passed row. stdout (snd (init fs_missing)) = [''Missing help topic for '' @ row ! 0]
          \<and> problem_infos (snd (init fs_missing)) = registry_of passed
          \<and> dom (problem_infos (snd (init fs_missing))) = (\<lambda>r. r ! 0) ` set passed
          \<and> ((problem_infos (snd (init fs_missing)) = Map.empty) = (passed = [])))"
proof -
  have h: "init fs_missing = (Inl (SystemExit 1), snd (init fs_missing))"
    using init_fs_missing(1) by (simp add: prod_eq_iff)
  have c: "csv_rows fs_missing (definitions ! 0) =
       Some (csv_header # [[''E001'', ''Category'', ''Msg1''], [''E002'', ''Category'', ''Msg2'']]
               @ [''E099'', ''Category'', ''Missing''] # [])"
    by (simp add: fs_missing_def mk_fs_def definitions_eq)
  from exit_keeps_earlier_entries [OF h]
  obtain passed row where e: "stdout (snd (init fs_missing)) = [''Missing help topic for '' @ row ! 0]"
    "problem_infos (snd (init fs_missing)) = registry_of passed"
    "dom (problem_infos (snd (init fs_missing))) = (\<lambda>r. r ! 0) ` set passed"
    "(problem_infos (snd (init fs_missing)) = Map.empty) = (passed = [])"
    by blast
  from e(1) have "row ! 0 = ''E099''"
    by (simp add: init_fs_missing(2))
  have d: "dom (problem_infos (snd (init fs_missing))) = {''E001'', ''E002''}"
    by (simp add: fs_missing_def init_mk_fs topics_documented getitem_def initial_state_def
          missing_message_def insert_commute)
  from h c e d init_fs_missing(2) show ?thesis by blast
qed

text \<open>
  C5 as stated fails: after the exit on \<open>E099\<close> the dictionary holds the entries of the
  two rows read before it.
\<close>

theorem registry_not_empty_after_exit:
  "fst (init fs_missing) = Inl (SystemExit 1)
   \<and> stdout (snd (init fs_missing)) = [''Missing help topic for E099'']
   \<and> problem_infos initial_state ''E001'' = None
   \<and> problem_infos (snd (init fs_missing)) ''E001'' = Some \<lparr>message = ''Msg1''\<rparr>
   \<and> problem_infos (snd (init fs_missing)) ''E002'' = Some \<lparr>message = ''Msg2''\<rparr>
   \<and> problem_infos (snd (init fs_missing)) \<noteq> Map.empty"
proof -
  have "problem_infos (snd (init fs_missing)) \<noteq> Map.empty"
    using init_fs_missing(3) by (auto simp: fun_eq_iff)
  then show ?thesis
    by (simp add: init_fs_missing initial_state_def)
qed

text \<open>
  C6. For a code with no entry in the dictionary, \<^verbatim>\<open>run\<close> raises \<^verbatim>\<open>KeyError\<close>: it
  returns no nodes, and it makes up no message.
\<close>

theorem run_unknown_code_raises:
  assumes "problem_infos s code = None"
  shows "run s [code] = (Inl KeyError, s)"
  using assms by (simp add: run_def getitem_def)

theorem run_unknown_code_raises_witness:
  "problem_infos (snd (init fs_documented)) ''E009'' = None
   \<and> run (snd (init fs_documented)) [''E009''] = (Inl KeyError, snd (init fs_documented))"
  using run_unknown_code_raises [OF init_fs_documented(6)] init_fs_documented(6)
  by simp

text \<open>
  C7. The documented topics are the union of what the two listings give, the listings
  being those of \<^verbatim>\<open>compiler/problems\<close> and \<^verbatim>\<open>vscode/problems\<close>; and a file name
  gives its base name: a name with no dot gives itself, and a name made of a base with no
  dot, a dot and extensions gives the base.
\<close>

theorem help_topics_union_of_base_names:
  assumes "listdir fs compiler_problems = Some compiler_listing"
    and "listdir fs vscode_problems = Some vscode_listing"
  shows "init fs =
           process_definitions fs (help_topics compiler_listing vscode_listing) definitions
             initial_state
         \<and> help_topics compiler_listing vscode_listing =
             help_topic ` set compiler_listing \<union> help_topic ` set vscode_listing
         \<and> (\<forall>base ext. CHR ''.'' \<notin> set base \<longrightarrow>
               help_topic base = base \<and> help_topic (base @ ''.'' @ ext) = base)
         \<and> compiler_problems = ''compiler/problems'' \<and> vscode_problems = ''vscode/problems''"
proof -
  have "init fs =
           process_definitions fs (help_topics compiler_listing vscode_listing) definitions
             initial_state"
    using assms by (simp add: init_def)
  moreover have "help_topics compiler_listing vscode_listing =
             help_topic ` set compiler_listing \<union> help_topic ` set vscode_listing"
    by (simp add: help_topics_def)
  moreover have "\<forall>base ext. CHR ''.'' \<notin> set base \<longrightarrow>
               help_topic base = base \<and> help_topic (base @ ''.'' @ ext) = base"
    using help_topic_base by blast
  moreover have "compiler_problems = ''compiler/problems'' \<and> vscode_problems = ''vscode/problems''"
    by (simp add: compiler_problems_def vscode_problems_def)
  ultimately show ?thesis by blast
qed

theorem help_topics_union_of_base_names_witness:
  "listdir fs_documented compiler_problems = Some [''E001.rst'', ''E002.rst'']
   \<and> listdir fs_documented vscode_problems = Some [''V001.rst'']
   \<and> help_topics [''E001.rst'', ''E002.rst''] [''V001.rst''] = {''E001'', ''E002'', ''V001''}
   \<and> CHR ''.'' \<notin> set ''E001''
   \<and> help_topic (''E001'' @ ''.'' @ ''rst'') = ''E001''"
proof -
  have h1: "listdir fs_documented compiler_problems = Some [''E001.rst'', ''E002.rst'']"
    and h2: "listdir fs_documented vscode_problems = Some [''V001.rst'']"
    by (simp_all add: fs_documented_def mk_fs_reads)
  have h3: "CHR ''.'' \<notin> set ''E001''" by simp
  from help_topics_union_of_base_names [OF h1 h2] h3
  have "help_topic (''E001'' @ ''.'' @ ''rst'') = ''E001''" by blast
  moreover from help_topics_union_of_base_names [OF h1 h2]
  have "help_topics [''E001.rst'', ''E002.rst''] [''V001.rst'']
          = help_topic ` set [''E001.rst'', ''E002.rst''] \<union> help_topic ` set [''V001.rst'']"
    by blast
  then have "help_topics [''E001.rst'', ''E002.rst''] [''V001.rst''] = {''E001'', ''E002'', ''V001''}"
    by (simp add: help_topic_takeWhile insert_commute)
  ultimately show ?thesis using h1 h2 h3 by simp
qed

text \<open>
  C8. On bytes that do not begin with the UTF-16LE byte-order mark \<open>FF FE\<close>, the loader
  gives the UTF-8 decoding of the bytes, stripped; on bytes that begin with the mark, it
  gives the UTF-16LE decoding of the bytes after the mark, stripped. Stripping removes
  white space at the two ends and nothing else. So a text of 7-bit characters gives the
  same version whether the file holds it in UTF-8 or, after the mark, in UTF-16LE.
\<close>

theorem version_decodes_and_strips:
  "(\<not> startswith encoded_text BOM_UTF16_LE \<longrightarrow>
      version encoded_text =
        (case decode encoded_text ''utf-8'' of Inl e \<Rightarrow> Inl e | Inr t \<Rightarrow> Inr (strip t)))
   \<and> version (BOM_UTF16_LE @ rest) =
        (case decode rest ''utf-16le'' of Inl e \<Rightarrow> Inl e | Inr t \<Rightarrow> Inr (strip t))
   \<and> BOM_UTF16_LE = [0xFF, 0xFE]
   \<and> (\<exists>pre post. t = pre @ strip t @ post \<and> list_all isspace pre \<and> list_all isspace post)
   \<and> (strip t \<noteq> [] \<longrightarrow> \<not> isspace (hd (strip t)) \<and> \<not> isspace (last (strip t)))
   \<and> ((\<forall>c \<in> set t. c < 0x80) \<longrightarrow>
         version (map of_nat t) = Inr (strip t)
         \<and> version (BOM_UTF16_LE @ concat (map (\<lambda>c. [of_nat c, 0]) t)) = Inr (strip t))"
proof -
  have a: "version encoded_text =
        (case decode encoded_text ''utf-8'' of Inl e \<Rightarrow> Inl e | Inr t \<Rightarrow> Inr (strip t))"
    if "\<not> startswith encoded_text BOM_UTF16_LE" for encoded_text
    using that by (simp add: version_def)
  have b: "version (BOM_UTF16_LE @ rest) =
        (case decode rest ''utf-16le'' of Inl e \<Rightarrow> Inl e | Inr t \<Rightarrow> Inr (strip t))" for rest
    by (simp add: version_def startswith_append)
  have c: "version (map of_nat t) = Inr (strip t)
         \<and> version (BOM_UTF16_LE @ concat (map (\<lambda>c. [of_nat c, 0]) t)) = Inr (strip t)"
    if ascii: "\<forall>c \<in> set t. c < 0x80"
  proof -
    have "decode (map of_nat t) ''utf-8'' = Inr t"
      by (simp only: decode_utf8 map_unat_ascii [OF ascii] utf8_decode_ascii [OF ascii])
    with a [OF ascii_no_bom [OF ascii]] have "version (map of_nat t) = Inr (strip t)"
      by simp
    moreover have "decode (concat (map (\<lambda>c. [of_nat c, 0]) t)) ''utf-16le'' = Inr t"
      by (simp only: decode_utf16le map_unat_ascii16 [OF ascii] utf16le_decode_ascii [OF ascii])
    with b [of "concat (map (\<lambda>c. [of_nat c, 0]) t)"]
    have "version (BOM_UTF16_LE @ concat (map (\<lambda>c. [of_nat c, 0]) t)) = Inr (strip t)"
      by simp
    ultimately show ?thesis by simp
  qed
  from a b c strip_decomp [of t] strip_ends [of t] show ?thesis
    by (simp add: BOM_UTF16_LE_def)
qed

theorem version_decodes_and_strips_witness:
  "\<not> startswith [0x20, 0x30, 0x2E, 0x31, 0x2E, 0x30, 0x0D, 0x0A] BOM_UTF16_LE
   \<and> version [0x20, 0x30, 0x2E, 0x31, 0x2E, 0x30, 0x0D, 0x0A] = Inr [0x30, 0x2E, 0x31, 0x2E, 0x30]
   \<and> version (BOM_UTF16_LE @ [0x20, 0, 0x30, 0, 0x2E, 0, 0x31, 0, 0x2E, 0, 0x30, 0, 0x0D, 0, 0x0A, 0])
       = Inr [0x30, 0x2E, 0x31, 0x2E, 0x30]
   \<and> version [0xFF, 0xFE, 0x3D, 0xD8, 0x00, 0xDE, 0x0A, 0x00] = Inr [0x1F600]
   \<and> version [0xF0, 0x9F, 0x98, 0x80, 0x0A] = Inr [0x1F600]
   \<and> version [0xFF, 0xFE, 0x30] = Inl UnicodeDecodeError"
proof -
  let ?t = "[0x20, 0x30, 0x2E, 0x31, 0x2E, 0x30, 0x0D, 0x0A] :: nat list"
  have ascii: "\<forall>c \<in> set ?t. c < 0x80" by simp
  have nb: "\<not> startswith [0x20, 0x30, 0x2E, 0x31, 0x2E, 0x30, 0x0D, 0x0A] BOM_UTF16_LE"
    by (simp add: startswith_def BOM_UTF16_LE_def)
  from version_decodes_and_strips [of _ _ ?t] ascii
  have "version (map of_nat ?t) = Inr (strip ?t)
         \<and> version (BOM_UTF16_LE @ concat (map (\<lambda>c. [of_nat c, 0]) ?t)) = Inr (strip ?t)"
    by blast
  then have "version [0x20, 0x30, 0x2E, 0x31, 0x2E, 0x30, 0x0D, 0x0A] = Inr [0x30, 0x2E, 0x31, 0x2E, 0x30]"
    and "version (BOM_UTF16_LE @ [0x20, 0, 0x30, 0, 0x2E, 0, 0x31, 0, 0x2E, 0, 0x30, 0, 0x0D, 0, 0x0A, 0])
       = Inr [0x30, 0x2E, 0x31, 0x2E, 0x30]"
    by (simp_all add: strip_example)
  moreover have "version [0xFF, 0xFE, 0x3D, 0xD8, 0x00, 0xDE, 0x0A, 0x00] = Inr [0x1F600]"
    using version_decodes_and_strips [of _ "[0x3D, 0xD8, 0x00, 0xDE, 0x0A, 0x00]"]
    by (simp add: BOM_UTF16_LE_def decode_def strip_def isspace_def)
  moreover have "version [0xF0, 0x9F, 0x98, 0x80, 0x0A] = Inr [0x1F600]"
    by (simp add: version_def startswith_def BOM_UTF16_LE_def decode_def continuation_def
          strip_def isspace_def)
  moreover have "version [0xFF, 0xFE, 0x30] = Inl UnicodeDecodeError"
    by (simp add: version_def startswith_def BOM_UTF16_LE_def decode_def)
  ultimately show ?thesis using nb by simp
qed

text \<open>
  C9. \<^verbatim>\<open>run\<close> leaves the module state as it found it, so that any number of calls, with
  any arguments, leave the dictionary unchanged, and a call with the same arguments
  returns the same result before and after them.
\<close>

theorem run_same_result_after_runs:
  "snd (run s arguments) = s \<and> runs s calls = s
   \<and> fst (run (runs s calls) arguments) = fst (run s arguments)"
  by (simp add: run_state runs_state)

theorem run_same_result_after_runs_witness:
  "fst (run (runs (snd (init fs_documented)) [[''E001''], [''E009''], [''E002'']]) [''E002''])
     = fst (run (snd (init fs_documented)) [''E002''])
   \<and> fst (run (snd (init fs_documented)) [''E002'']) =
       Inr [nodes_definition_list ''''
              [make_item ''Code'' ''E002'', make_item ''Message'' ''Msg2'']]"
  using run_same_result_after_runs
          [of "snd (init fs_documented)" "[''E002'']" "[[''E001''], [''E009''], [''E002'']]"]
  by (simp add: run_def getitem_def init_fs_documented(4))

text \<open>
  C10. The topic of a file name is what comes before its first dot, not before its last:
  \<^verbatim>\<open>E001.en.rst\<close> gives \<open>E001\<close>, and a name that starts with a dot, such as
  \<^verbatim>\<open>.gitkeep\<close>, gives the empty string. So when either listing holds a name that starts
  with a dot, the empty string is a documented topic, and a row whose code is empty passes
  the check: it is stored and the loop goes on.
\<close>

theorem help_topic_up_to_first_dot:
  "help_topic v = takeWhile (\<lambda>c. c \<noteq> CHR ''.'') v
   \<and> help_topic ''E001.en.rst'' = ''E001''
   \<and> help_topic ''.gitkeep'' = ''''
   \<and> ((\<exists>f \<in> set compiler_listing \<union> set vscode_listing. take 1 f = ''.'') \<longrightarrow>
         '''' \<in> help_topics compiler_listing vscode_listing
         \<and> process_rows (help_topics compiler_listing vscode_listing)
             (('''' # category # msg # others) # rows) s =
           process_rows (help_topics compiler_listing vscode_listing) rows
             (s\<lparr>problem_infos := (problem_infos s)('''' \<mapsto> \<lparr>message = msg\<rparr>)\<rparr>))"
proof -
  have dot: "help_topic f = ''''" if "take 1 f = ''.''" for f
    using that by (cases f) (simp_all add: help_topic_takeWhile)
  have "'''' \<in> help_topics compiler_listing vscode_listing"
    if "\<exists>f \<in> set compiler_listing \<union> set vscode_listing. take 1 f = ''.''"
  proof -
    from that obtain f where "f \<in> set compiler_listing \<union> set vscode_listing" "help_topic f = ''''"
      using dot by blast
    then show ?thesis by (force simp: help_topics_def)
  qed
  then show ?thesis
    by (simp add: help_topic_takeWhile getitem_def)
qed

theorem help_topic_up_to_first_dot_witness:
  "''.gitkeep'' \<in> set [''E001.en.rst'', ''.gitkeep''] \<union> set []
   \<and> take 1 ''.gitkeep'' = ''.''
   \<and> help_topics [''E001.en.rst'', ''.gitkeep''] [] = {''E001'', ''''}
   \<and> fst (process_rows (help_topics [''E001.en.rst'', ''.gitkeep''] [])
             [['''', ''Category'', ''No code'']] initial_state) = Inr ()
   \<and> problem_infos (snd (process_rows (help_topics [''E001.en.rst'', ''.gitkeep''] [])
             [['''', ''Category'', ''No code'']] initial_state)) '''' = Some \<lparr>message = ''No code''\<rparr>"
proof -
  have h: "\<exists>f \<in> set [''E001.en.rst'', ''.gitkeep''] \<union> set []. take 1 f = ''.''"
    by simp
  from help_topic_up_to_first_dot
         [where compiler_listing = "[''E001.en.rst'', ''.gitkeep'']" and vscode_listing = "[]"
            and category = "''Category''" and msg = "''No code''" and others = "[]"
            and rows = "[]" and s = initial_state] h
  have "process_rows (help_topics [''E001.en.rst'', ''.gitkeep''] [])
             [['''', ''Category'', ''No code'']] initial_state =
        process_rows (help_topics [''E001.en.rst'', ''.gitkeep''] []) []
             (initial_state\<lparr>problem_infos := (problem_infos initial_state)('''' \<mapsto> \<lparr>message = ''No code''\<rparr>)\<rparr>)"
    by blast
  moreover have "help_topics [''E001.en.rst'', ''.gitkeep''] [] = {''E001'', ''''}"
    by (simp add: help_topics_def help_topic_takeWhile)
  ultimately show ?thesis by simp
qed

end
